theory Spec2Isabelle
  imports Main
begin

section \<open>PILFont: the metrics-file codec of \<open>PILFont.py\<close>\<close>

text \<open>
  A byte string of Python (\<open>bytes\<close>) is a \<open>string\<close>: a list of 8-bit characters.
  Python integers are unbounded: \<open>int\<close>; counters that start at 0 and only grow are
  \<open>nat\<close>. Every exception the code can raise is a value of \<open>error\<close>.
\<close>

subsection \<open>Errors\<close>

datatype error =
    PILFontParsingError nat string string
      \<comment> \<open>raised by \<open>_check_header\<close>: the offset \<open>seek\<close>, the expected and the actual bytes\<close>
  | ValueError        \<comment> \<open>\<open>int(...)\<close> on text that is not a decimal integer\<close>
  | StructError       \<comment> \<open>\<open>struct.error\<close>: wrong buffer size, or a value outside 16 bits\<close>
  | OverflowError     \<comment> \<open>\<open>int.to_bytes\<close>: the integer does not fit the byte count\<close>
  | IndexError        \<comment> \<open>list index out of range\<close>
  | FileNotFoundError \<comment> \<open>\<open>open(path, "rb")\<close> of a path that does not exist\<close>
  | ImageError string \<comment> \<open>any failure of the image backend (PIL), which is outside the code\<close>

subsection \<open>Data: \<open>Glyph\<close> and \<open>PILFont\<close>\<close>

record Glyph =
  character :: string
  delta :: "int \<times> int"
  src_bbox :: "int \<times> int \<times> int \<times> int"
  dst_bbox :: "int \<times> int \<times> int \<times> int"

text \<open>\<open>Glyph.__iter__\<close>: \<open>iter((*self.delta, *self.dst_bbox, *self.src_bbox))\<close>.\<close>

definition glyph_iter :: "Glyph \<Rightarrow> int list" where
  "glyph_iter g =
     (case delta g of (dx, dy) \<Rightarrow>
      case dst_bbox g of (dx0, dy0, dx1, dy1) \<Rightarrow>
      case src_bbox g of (sx0, sy0, sx1, sy1) \<Rightarrow>
        [dx, dy, dx0, dy0, dx1, dy1, sx0, sy0, sx1, sy1])"

record 'img PILFont =
  atlas :: 'img
  ysize :: int
  glyphs :: "Glyph list"

text \<open>
  \<open>PILFont.__getitem__\<close> is \<open>self.glyphs[index]\<close>, the indexing of a Python list:
  a negative index counts from the end, and an index outside \<open>[-N, N)\<close> raises IndexError.
\<close>

definition list_getitem :: "'a list \<Rightarrow> int \<Rightarrow> error + 'a" where
  "list_getitem xs index =
     (let n = int (length xs);
          j = (if index < 0 then index + n else index)
      in if 0 \<le> j \<and> j < n then Inr (xs ! nat j) else Inl IndexError)"

definition getitem :: "'img PILFont \<Rightarrow> int \<Rightarrow> error + Glyph" where
  "getitem font index = list_getitem (glyphs font) index"

subsection \<open>Library functions the code calls\<close>

text \<open>
  \<open>int(b)\<close> for a bytes object \<open>b\<close> (base 10): leading whitespace, an optional sign, decimal
  digits with single underscores between digits, trailing whitespace, and nothing else.
  \<open>None\<close> stands for ValueError.
\<close>

definition is_space :: "char \<Rightarrow> bool" where
  "is_space c = (c \<in> set [CHR '' '', CHR 0x09, CHR ''\<newline>'', CHR 0x0B, CHR 0x0C, CHR 0x0D])"

definition is_digit :: "char \<Rightarrow> bool" where
  "is_digit c = (48 \<le> (of_char c :: nat) \<and> (of_char c :: nat) \<le> 57)"

definition digit_val :: "char \<Rightarrow> nat" where
  "digit_val c = of_char c - 48"

fun scan_digits :: "string \<Rightarrow> char \<Rightarrow> nat \<Rightarrow> (nat \<times> string) option" where
  "scan_digits [] prev acc = (if prev = CHR ''_'' then None else Some (acc, []))"
| "scan_digits (c # cs) prev acc =
     (if is_digit c then scan_digits cs c (10 * acc + digit_val c)
      else if c = CHR ''_'' then (if prev = CHR ''_'' then None else scan_digits cs c acc)
      else if prev = CHR ''_'' then None
      else Some (acc, c # cs))"

definition py_int :: "string \<Rightarrow> int option" where
  "py_int b =
     (let s1 = dropWhile is_space b;
          (sign, s2) = (case s1 of
                          c # r \<Rightarrow> if c = CHR ''+'' then (1, r)
                                   else if c = CHR ''-'' then (- 1, r)
                                   else (1, s1)
                        | [] \<Rightarrow> (1 :: int, s1))
      in case s2 of
           [] \<Rightarrow> None
         | c # _ \<Rightarrow>
             if \<not> is_digit c then None
             else (case scan_digits s2 (CHR 0x00) 0 of
                     None \<Rightarrow> None
                   | Some (n, rest) \<Rightarrow>
                       if dropWhile is_space rest = [] then Some (sign * int n) else None))"

text \<open>\<open>str(n).encode("utf-8")\<close> for an integer: its decimal digits, \<open>-\<close> first when negative.\<close>

fun digits_of :: "nat \<Rightarrow> string" where
  "digits_of n =
     (if n < 10 then [char_of (48 + n)]
      else digits_of (n div 10) @ [char_of (48 + n mod 10)])"

declare digits_of.simps [simp del]

definition py_str :: "int \<Rightarrow> string" where
  "py_str n = (if n < 0 then CHR ''-'' # digits_of (nat (- n)) else digits_of (nat n))"

text \<open>
  \<open>struct.pack("!10h", ...)\<close> and \<open>struct.unpack("!10h", ...)\<close>: ten signed 16-bit integers,
  big-endian (network order), 20 bytes. Packing raises \<open>struct.error\<close> unless it gets ten
  values, each in \<open>[-32768, 32767]\<close>; unpacking raises it unless the buffer has 20 bytes.
\<close>

definition pack_h :: "int \<Rightarrow> string" where
  "pack_h v = [char_of (v div 256), char_of v]"

definition unpack_h :: "char \<Rightarrow> char \<Rightarrow> int" where
  "unpack_h hi lo =
     (let u = 256 * of_char hi + of_char lo
      in if 32768 \<le> u then u - 65536 else u)"

definition in_int16 :: "int \<Rightarrow> bool" where
  "in_int16 v = (- 32768 \<le> v \<and> v \<le> 32767)"

definition pack_10h :: "int list \<Rightarrow> error + string" where
  "pack_10h vs =
     (if length vs \<noteq> 10 then Inl StructError
      else if list_all in_int16 vs then Inr (concat (map pack_h vs))
      else Inl StructError)"

definition unpack_10h ::
  "string \<Rightarrow> error + (int \<times> int \<times> int \<times> int \<times> int \<times> int \<times> int \<times> int \<times> int \<times> int)" where
  "unpack_10h raw =
     (if length raw \<noteq> 20 then Inl StructError
      else Inr (unpack_h (raw ! 0) (raw ! 1), unpack_h (raw ! 2) (raw ! 3),
                unpack_h (raw ! 4) (raw ! 5), unpack_h (raw ! 6) (raw ! 7),
                unpack_h (raw ! 8) (raw ! 9), unpack_h (raw ! 10) (raw ! 11),
                unpack_h (raw ! 12) (raw ! 13), unpack_h (raw ! 14) (raw ! 15),
                unpack_h (raw ! 16) (raw ! 17), unpack_h (raw ! 18) (raw ! 19)))"

text \<open>\<open>i.to_bytes(1, "little")\<close> for \<open>i \<ge> 0\<close>: one byte, OverflowError from 256 on.\<close>

definition to_bytes_1 :: "nat \<Rightarrow> error + string" where
  "to_bytes_1 i = (if i < 256 then Inr [char_of i] else Inl OverflowError)"

subsection \<open>The file object\<close>

text \<open>
  A binary file opened for reading: its content and the current position. \<open>read(n)\<close>
  returns the next \<open>n\<close> bytes, fewer at the end of the file, and advances by what it returned.
\<close>

record stream =
  content :: string
  pos :: nat

definition fp_tell :: "stream \<Rightarrow> nat" where
  "fp_tell fp = pos fp"

definition fp_read :: "nat \<Rightarrow> stream \<Rightarrow> string \<times> stream" where
  "fp_read n fp =
     (let chunk = take n (drop (pos fp) (content fp))
      in (chunk, fp\<lparr>pos := pos fp + length chunk\<rparr>))"

subsection \<open>\<open>_check_header\<close>\<close>

definition check_header :: "stream \<Rightarrow> string \<Rightarrow> error + stream" where
  "check_header fp expected =
     (let seek = fp_tell fp;
          (actual, fp') = fp_read (length expected) fp
      in if actual \<noteq> expected then Inl (PILFontParsingError seek expected actual)
         else Inr fp')"

subsection \<open>\<open>PILFont.load\<close>\<close>

definition magic :: string where
  "magic = ''PILfont\<newline>;;;;;;''"

definition data_marker :: string where
  "data_marker = '';\<newline>DATA\<newline>''"

text \<open>The body of the loop: unpack the 20 bytes, then build the glyph of index \<open>i\<close>.\<close>

definition make_glyph :: "nat \<Rightarrow> string \<Rightarrow> error + Glyph" where
  "make_glyph i raw_glyph =
     (case unpack_10h raw_glyph of
        Inl e \<Rightarrow> Inl e
      | Inr (dx, dy, dx0, dy0, dx1, dy1, sx0, sy0, sx1, sy1) \<Rightarrow>
          (case to_bytes_1 i of
             Inl e \<Rightarrow> Inl e
           | Inr c \<Rightarrow>
               Inr \<lparr>character = c, delta = (dx, dy),
                    src_bbox = (sx0, sy0, sx1, sy1),
                    dst_bbox = (dx0, dy0, dx1, dy1)\<rparr>))"

text \<open>
  \<open>for i, raw_glyph in enumerate(iter(lambda: f.read(20), b""))\<close>: chunks of 20 bytes are
  read until a read returns nothing; \<open>i\<close> counts the chunks from 0, and \<open>acc\<close> is the
  list \<open>glyphs\<close> built so far.
\<close>

function read_glyphs :: "nat \<Rightarrow> stream \<Rightarrow> Glyph list \<Rightarrow> error + Glyph list" where
  "read_glyphs i f acc =
     (if fst (fp_read 20 f) = [] then Inr acc
      else (case make_glyph i (fst (fp_read 20 f)) of
              Inl e \<Rightarrow> Inl e
            | Inr g \<Rightarrow> read_glyphs (Suc i) (snd (fp_read 20 f)) (acc @ [g])))"
  by pat_completeness auto
termination
  by (relation "measure (\<lambda>(i, f, acc). length (content f) - pos f)")
     (auto simp: fp_read_def Let_def)

declare read_glyphs.simps [simp del]

text \<open>What \<open>load\<close> does with the opened metrics file: the two values it hands to \<open>cls\<close>.\<close>

definition load_stream :: "string \<Rightarrow> error + (int \<times> Glyph list)" where
  "load_stream bytes =
     (let f = \<lparr>content = bytes, pos = 0\<rparr>
      in case check_header f magic of
           Inl e \<Rightarrow> Inl e
         | Inr f1 \<Rightarrow>
             (let (ytext, f2) = fp_read 2 f1
              in case py_int ytext of
                   None \<Rightarrow> Inl ValueError
                 | Some y \<Rightarrow>
                     (case check_header f2 data_marker of
                        Inl e \<Rightarrow> Inl e
                      | Inr f3 \<Rightarrow>
                          (case read_glyphs 0 f3 [] of
                             Inl e \<Rightarrow> Inl e
                           | Inr gs \<Rightarrow> Inr (y, gs)))))"

text \<open>
  The file system is a map from paths to contents. The image backend is a parameter:
  \<open>image_open\<close> stands for \<open>Image.open(image_path)\<close>, which gives a handle or raises, and
  \<open>image_copy\<close> for \<open>glyph_atlas.copy()\<close>. The source opens the image first, then opens
  and parses the metrics file, and copies the image only afterwards, in the \<open>return\<close>.
\<close>

type_synonym path = string
type_synonym fs = "path \<rightharpoonup> string"

definition load ::
  "(path \<Rightarrow> fs \<Rightarrow> error + 'handle) \<Rightarrow> ('handle \<Rightarrow> error + 'img) \<Rightarrow> path \<Rightarrow> path \<Rightarrow> fs
     \<Rightarrow> error + 'img PILFont" where
  "load image_open image_copy metrics_path image_path files =
     (case image_open image_path files of
        Inl e \<Rightarrow> Inl e
      | Inr glyph_atlas \<Rightarrow>
          (case files metrics_path of
             None \<Rightarrow> Inl FileNotFoundError
           | Some bytes \<Rightarrow>
               (case load_stream bytes of
                  Inl e \<Rightarrow> Inl e
                | Inr (y, gs) \<Rightarrow>
                    (case image_copy glyph_atlas of
                       Inl e \<Rightarrow> Inl e
                     | Inr a \<Rightarrow> Inr \<lparr>atlas = a, ysize = y, glyphs = gs\<rparr>))))"

subsection \<open>\<open>PILFont.save\<close>\<close>

text \<open>
  The writes to the metrics file, in order; \<open>out\<close> is what the file holds so far. A glyph
  that cannot be packed raises: the error comes back with the bytes already written.
\<close>

fun write_glyphs :: "Glyph list \<Rightarrow> string \<Rightarrow> error option \<times> string" where
  "write_glyphs [] out = (None, out)"
| "write_glyphs (glyph # rest) out =
     (case pack_10h (glyph_iter glyph) of
        Inl e \<Rightarrow> (Some e, out)
      | Inr bs \<Rightarrow> write_glyphs rest (out @ bs))"

definition save_stream :: "int \<Rightarrow> Glyph list \<Rightarrow> error option \<times> string" where
  "save_stream y gs = write_glyphs gs (([] @ magic) @ py_str y @ data_marker)"

text \<open>
  \<open>save\<close>: the atlas first, when an image path is given; an exception of the backend
  leaves \<open>save\<close> at once. Then \<open>open(metrics_path, "wb+")\<close> creates or truncates the
  metrics file, and the file keeps what was written when the block is left.
  \<open>image_save\<close> stands for \<open>self.atlas.save(image_path, **image_kwargs)\<close>: it returns the
  backend's error, if any, and the file system as the backend left it.
\<close>

definition save ::
  "('img \<Rightarrow> path \<Rightarrow> fs \<Rightarrow> error option \<times> fs) \<Rightarrow> 'img PILFont \<Rightarrow> path \<Rightarrow> path option \<Rightarrow> fs
     \<Rightarrow> error option \<times> fs" where
  "save image_save font metrics_path image_path files =
     (let (r, files1) = (case image_path of
                           None \<Rightarrow> (None, files)
                         | Some ip \<Rightarrow> image_save (atlas font) ip files)
      in case r of
           Some e \<Rightarrow> (Some e, files1)
         | None \<Rightarrow>
             (let (w, bytes) = save_stream (ysize font) (glyphs font)
              in (w, files1(metrics_path \<mapsto> bytes))))"

subsection \<open>Auxiliary definitions for the statements\<close>

text \<open>
  \<open>glyph_of i raw\<close> is the glyph that the loop body builds from a chunk \<open>raw\<close> at index \<open>i\<close>
  when nothing raises; \<open>record_at body k\<close> is the \<open>k\<close>-th 20-byte chunk of the bytes after the
  header, and \<open>decoded_table body n\<close> the glyphs of the first \<open>n\<close> chunks.
\<close>

definition glyph_of :: "nat \<Rightarrow> string \<Rightarrow> Glyph" where
  "glyph_of i raw =
     \<lparr>character = [char_of i],
      delta = (unpack_h (raw ! 0) (raw ! 1), unpack_h (raw ! 2) (raw ! 3)),
      src_bbox = (unpack_h (raw ! 12) (raw ! 13), unpack_h (raw ! 14) (raw ! 15),
                  unpack_h (raw ! 16) (raw ! 17), unpack_h (raw ! 18) (raw ! 19)),
      dst_bbox = (unpack_h (raw ! 4) (raw ! 5), unpack_h (raw ! 6) (raw ! 7),
                  unpack_h (raw ! 8) (raw ! 9), unpack_h (raw ! 10) (raw ! 11))\<rparr>"

definition record_at :: "string \<Rightarrow> nat \<Rightarrow> string" where
  "record_at body k = take 20 (drop (20 * k) body)"

definition decoded_table :: "string \<Rightarrow> nat \<Rightarrow> Glyph list" where
  "decoded_table body n = map (\<lambda>k. glyph_of k (record_at body k)) [0..<n]"

text \<open>
  \<open>encoded g\<close> is the 20 bytes that \<open>save\<close> writes for a glyph whose ten values fit 16 bits;
  \<open>glyph_in_range g\<close> says that they do.
\<close>

definition encoded :: "Glyph \<Rightarrow> string" where
  "encoded g = concat (map pack_h (glyph_iter g))"

definition glyph_in_range :: "Glyph \<Rightarrow> bool" where
  "glyph_in_range g = list_all in_int16 (glyph_iter g)"

text \<open>
  The two glyphs of the example scenario of the specification, with their positional
  characters, and an image backend whose \<open>save\<close> opens its target for writing, which
  creates or truncates it, and then fails.
\<close>

definition glyph_A :: Glyph where
  "glyph_A = \<lparr>character = [CHR 0x00], delta = (6, 0), src_bbox = (0, 0, 6, 16),
              dst_bbox = (0, - 16, 6, 0)\<rparr>"

definition glyph_B :: Glyph where
  "glyph_B = \<lparr>character = [CHR 0x01], delta = (6, 0), src_bbox = (6, 0, 12, 16),
              dst_bbox = (0, - 16, 6, 0)\<rparr>"


section \<open>Properties\<close>

subsection \<open>The file object and the loop\<close>



lemma fst_fp_read: "fst (fp_read n f) = take n (drop (pos f) (content f))"
  by (simp add: fp_read_def Let_def)

lemma snd_fp_read:
  "snd (fp_read n f) = f\<lparr>pos := pos f + min (length (content f) - pos f) n\<rparr>"
  by (simp add: fp_read_def Let_def)

lemma check_header_eq:
  "check_header f e =
     (if take (length e) (drop (pos f) (content f)) \<noteq> e
      then Inl (PILFontParsingError (pos f) e (take (length e) (drop (pos f) (content f))))
      else Inr (f\<lparr>pos := pos f + length e\<rparr>))"
proof -
  have "take (length e) (drop (pos f) (content f)) = e \<Longrightarrow>
        min (length (content f) - pos f) (length e) = length e"
    by (metis length_take length_drop)
  then show ?thesis
    by (auto simp: check_header_def fp_tell_def fp_read_def Let_def)
qed

lemma make_glyph_ok:
  "length raw = 20 \<Longrightarrow> i < 256 \<Longrightarrow> make_glyph i raw = Inr (glyph_of i raw)"
  by (simp add: make_glyph_def unpack_10h_def to_bytes_1_def glyph_of_def)

lemma make_glyph_short: "length raw \<noteq> 20 \<Longrightarrow> make_glyph i raw = Inl StructError"
  by (simp add: make_glyph_def unpack_10h_def)

lemma make_glyph_overflow:
  "length raw = 20 \<Longrightarrow> 256 \<le> i \<Longrightarrow> make_glyph i raw = Inl OverflowError"
  by (simp add: make_glyph_def unpack_10h_def to_bytes_1_def)

lemma read_glyphs_eof:
  "length (content f) \<le> pos f \<Longrightarrow> read_glyphs i f acc = Inr acc"
  by (subst read_glyphs.simps) (simp add: fst_fp_read)

lemma read_glyphs_short:
  "pos f < length (content f) \<Longrightarrow> length (content f) < pos f + 20 \<Longrightarrow>
   read_glyphs i f acc = Inl StructError"
  by (subst read_glyphs.simps) (simp add: fst_fp_read make_glyph_short)

lemma read_glyphs_overflow:
  "pos f + 20 \<le> length (content f) \<Longrightarrow> 256 \<le> i \<Longrightarrow>
   read_glyphs i f acc = Inl OverflowError"
proof -
  assume a: "pos f + 20 \<le> length (content f)" and b: "256 \<le> i"
  have len: "length (take 20 (drop (pos f) (content f))) = 20" using a by simp
  then have ne: "take 20 (drop (pos f) (content f)) \<noteq> []" by auto
  show ?thesis
    using a by (subst read_glyphs.simps) (simp add: fst_fp_read make_glyph_overflow [OF len b])
qed

lemma read_glyphs_step:
  assumes a: "pos f + 20 \<le> length (content f)" and b: "i < 256"
  shows "read_glyphs i f acc =
         read_glyphs (Suc i) (f\<lparr>pos := pos f + 20\<rparr>)
           (acc @ [glyph_of i (take 20 (drop (pos f) (content f)))])"
proof -
  have len: "length (take 20 (drop (pos f) (content f))) = 20" using a by simp
  then have ne: "take 20 (drop (pos f) (content f)) \<noteq> []" by auto
  have m: "min (length (content f) - pos f) 20 = 20" using a by simp
  show ?thesis
    using a by (subst read_glyphs.simps)
       (simp add: fst_fp_read snd_fp_read m make_glyph_ok [OF len b])
qed

lemma read_glyphs_records:
  "pos f + 20 * n \<le> length (content f) \<Longrightarrow> i + n \<le> 256 \<Longrightarrow>
   read_glyphs i f acc =
   read_glyphs (i + n) (f\<lparr>pos := pos f + 20 * n\<rparr>)
     (acc @ map (\<lambda>k. glyph_of (i + k) (take 20 (drop (pos f + 20 * k) (content f)))) [0..<n])"
proof (induction n arbitrary: i f acc)
  case 0
  then show ?case by simp
next
  case (Suc n)
  have s: "read_glyphs i f acc =
         read_glyphs (Suc i) (f\<lparr>pos := pos f + 20\<rparr>)
           (acc @ [glyph_of i (take 20 (drop (pos f) (content f)))])"
    using Suc.prems by (intro read_glyphs_step) auto
  have ih: "read_glyphs (Suc i) (f\<lparr>pos := pos f + 20\<rparr>)
           (acc @ [glyph_of i (take 20 (drop (pos f) (content f)))]) =
     read_glyphs (Suc i + n) (f\<lparr>pos := pos f + 20\<rparr>\<lparr>pos := pos (f\<lparr>pos := pos f + 20\<rparr>) + 20 * n\<rparr>)
     ((acc @ [glyph_of i (take 20 (drop (pos f) (content f)))]) @
       map (\<lambda>k. glyph_of (Suc i + k) (take 20 (drop (pos (f\<lparr>pos := pos f + 20\<rparr>) + 20 * k) (content (f\<lparr>pos := pos f + 20\<rparr>))))) [0..<n])"
    using Suc.prems by (intro Suc.IH) auto
  show ?case
    unfolding s ih by (simp add: map_upt_Suc add.assoc del: upt_Suc)
qed


lemma load_stream_unfold:
  "load_stream s =
     (if take 14 s \<noteq> magic then Inl (PILFontParsingError 0 magic (take 14 s))
      else case py_int (take 2 (drop 14 s)) of
             None \<Rightarrow> Inl ValueError
           | Some y \<Rightarrow>
               if take 7 (drop (14 + min (length s - 14) 2) s) \<noteq> data_marker
               then Inl (PILFontParsingError (14 + min (length s - 14) 2) data_marker
                           (take 7 (drop (14 + min (length s - 14) 2) s)))
               else (case read_glyphs 0 \<lparr>content = s, pos = 21 + min (length s - 14) 2\<rparr> [] of
                       Inl e \<Rightarrow> Inl e
                     | Inr gs \<Rightarrow> Inr (y, gs)))"
proof -
  have m: "length magic = 14" and d: "length data_marker = 7"
    by (simp_all add: magic_def data_marker_def)
  show ?thesis
    by (simp add: load_stream_def check_header_eq m d fp_read_def Let_def
             split: option.split)
qed

lemma load_stream_header:
  assumes "length yt = 2"
  shows "load_stream (magic @ yt @ data_marker @ body) =
     (case py_int yt of
        None \<Rightarrow> Inl ValueError
      | Some y \<Rightarrow>
          (case read_glyphs 0 \<lparr>content = magic @ yt @ data_marker @ body, pos = 23\<rparr> [] of
             Inl e \<Rightarrow> Inl e
           | Inr gs \<Rightarrow> Inr (y, gs)))"
proof -
  have m: "length magic = 14" and d: "length data_marker = 7"
    by (simp_all add: magic_def data_marker_def)
  show ?thesis
    using assms by (simp add: load_stream_unfold m d split: option.split)
qed

lemma load_stream_InrD:
  assumes "load_stream s = Inr (y, gs)"
  shows "take 14 s = magic \<and> py_int (take 2 (drop 14 s)) = Some y \<and> 23 \<le> length s \<and>
         take 7 (drop 16 s) = data_marker \<and>
         read_glyphs 0 \<lparr>content = s, pos = 23\<rparr> [] = Inr gs"
proof -
  have d: "length data_marker = 7" by (simp add: data_marker_def)
  from assms have 1: "take 14 s = magic"
    by (simp add: load_stream_unfold split: if_splits)
  from assms 1 have 2: "py_int (take 2 (drop 14 s)) = Some y"
    by (simp add: load_stream_unfold split: if_splits option.splits sum.splits)
  from assms 1 2 have 3: "take 7 (drop (14 + min (length s - 14) 2) s) = data_marker"
    by (simp add: load_stream_unfold split: if_splits)
  have "length (take 7 (drop (14 + min (length s - 14) 2) s)) = 7"
    using 3 d by simp
  then have 4: "23 \<le> length s" by (simp split: if_splits add: min_def)
  then have 5: "min (length s - 14) 2 = 2" by simp
  from assms 1 2 3 5 show ?thesis using 4
    by (simp add: load_stream_unfold split: sum.splits)
qed




lemma drop_prefix: "length h = k \<Longrightarrow> drop (k + m) (h @ b) = drop m b"
  by simp

lemma header_length: "length yt = 2 \<Longrightarrow> length (magic @ yt @ data_marker) = 23"
  by (simp add: magic_def data_marker_def)

lemma load_stream_body:
  assumes yt: "length yt = 2" and y: "py_int yt = Some y"
    and n: "20 * n \<le> length body" "n \<le> 256"
  shows "load_stream (magic @ yt @ data_marker @ body) =
         (case read_glyphs n \<lparr>content = magic @ yt @ data_marker @ body, pos = 23 + 20 * n\<rparr>
                 (decoded_table body n) of
            Inl e \<Rightarrow> Inl e
          | Inr gs \<Rightarrow> Inr (y, gs))"
proof -
  let ?s = "magic @ yt @ data_marker @ body"
  let ?h = "magic @ yt @ data_marker"
  have h: "length ?h = 23" using yt by (rule header_length)
  have s: "?s = ?h @ body" by simp
  have len: "length ?s = 23 + length body" unfolding s using h by simp
  have dr: "drop (23 + m) ?s = drop m body" for m
    using drop_prefix [OF h, of m body] by simp
  have "read_glyphs 0 \<lparr>content = ?s, pos = 23\<rparr> [] =
        read_glyphs (0 + n) (\<lparr>content = ?s, pos = 23\<rparr>\<lparr>pos := pos \<lparr>content = ?s, pos = 23\<rparr> + 20 * n\<rparr>)
          ([] @ map (\<lambda>k. glyph_of (0 + k)
                 (take 20 (drop (pos \<lparr>content = ?s, pos = 23\<rparr> + 20 * k)
                    (content \<lparr>content = ?s, pos = 23\<rparr>)))) [0..<n])"
    using n len by (intro read_glyphs_records) simp_all
  then have "read_glyphs 0 \<lparr>content = ?s, pos = 23\<rparr> [] =
        read_glyphs n \<lparr>content = ?s, pos = 23 + 20 * n\<rparr> (decoded_table body n)"
    by (simp add: dr decoded_table_def record_at_def del: drop_append)
  then show ?thesis
    using y by (simp add: load_stream_header [OF yt])
qed

lemma load_stream_complete:
  assumes yt: "length yt = 2" and y: "py_int yt = Some y"
    and n: "length body = 20 * n" "n \<le> 256"
  shows "load_stream (magic @ yt @ data_marker @ body) = Inr (y, decoded_table body n)"
proof -
  have h: "length (magic @ yt @ data_marker) = 23" using yt by (rule header_length)
  have "length (magic @ yt @ data_marker @ body) = 23 + 20 * n"
    using h n by simp
  then have "read_glyphs n \<lparr>content = magic @ yt @ data_marker @ body, pos = 23 + 20 * n\<rparr>
          (decoded_table body n) = Inr (decoded_table body n)"
    by (intro read_glyphs_eof) simp
  then show ?thesis
    using load_stream_body [OF yt y, of n body] n by simp
qed

lemma load_stream_partial:
  assumes yt: "length yt = 2" and y: "py_int yt = Some y"
    and n: "length body = 20 * n + r" "n \<le> 256" and r: "0 < r" "r < 20"
  shows "load_stream (magic @ yt @ data_marker @ body) = Inl StructError"
proof -
  have h: "length (magic @ yt @ data_marker) = 23" using yt by (rule header_length)
  have "length (magic @ yt @ data_marker @ body) = 23 + 20 * n + r"
    using h n by simp
  then have "read_glyphs n \<lparr>content = magic @ yt @ data_marker @ body, pos = 23 + 20 * n\<rparr>
          (decoded_table body n) = Inl StructError"
    using r by (intro read_glyphs_short) simp_all
  then show ?thesis
    using load_stream_body [OF yt y, of n body] n by simp
qed

lemma load_stream_overflow:
  assumes yt: "length yt = 2" and y: "py_int yt = Some y"
    and n: "5140 \<le> length body"
  shows "load_stream (magic @ yt @ data_marker @ body) = Inl OverflowError"
proof -
  have h: "length (magic @ yt @ data_marker) = 23" using yt by (rule header_length)
  have "length (magic @ yt @ data_marker @ body) = 23 + length body"
    using h by simp
  then have "read_glyphs 256 \<lparr>content = magic @ yt @ data_marker @ body, pos = 23 + 20 * 256\<rparr>
          (decoded_table body 256) = Inl OverflowError"
    using n by (intro read_glyphs_overflow) simp_all
  then show ?thesis
    using load_stream_body [OF yt y, of 256 body] n by simp
qed

lemma read_glyphs_length:
  "read_glyphs i f acc = Inr gs \<Longrightarrow> length acc \<le> i \<Longrightarrow> i \<le> 256 \<Longrightarrow> length gs \<le> 256"
proof (induction i f acc rule: read_glyphs.induct)
  case (1 i f acc)
  show ?case
  proof (cases "fst (fp_read 20 f) = []")
    case True
    with "1.prems" show ?thesis by (simp add: read_glyphs.simps [of i f acc])
  next
    case False
    from "1.prems"(1) False obtain g where
      g: "make_glyph i (fst (fp_read 20 f)) = Inr g"
      and r: "read_glyphs (Suc i) (snd (fp_read 20 f)) (acc @ [g]) = Inr gs"
      by (simp add: read_glyphs.simps [of i f acc] split: sum.splits)
    from g have "i < 256"
      by (auto simp: make_glyph_def to_bytes_1_def split: sum.splits if_splits prod.splits)
    with "1.IH" [OF False g r] "1.prems" show ?thesis by simp
  qed
qed

lemma py_int_20: "py_int ''20'' = Some 20"
  by (simp add: py_int_def is_space_def is_digit_def digit_val_def)


lemma length_decoded_table: "length (decoded_table body n) = n"
  by (simp add: decoded_table_def)

lemma nth_decoded_table: "i < n \<Longrightarrow> decoded_table body n ! i = glyph_of i (record_at body i)"
  by (simp add: decoded_table_def)

subsection \<open>Truncated records and the end of the file\<close>

text \<open>
  Claim C3, as amended. After a header that \<open>load\<close> accepts (the magic literal, two bytes
  that \<open>int\<close> parses, the \<open>DATA\<close> literal), let the rest of the file be \<open>n\<close> complete
  20-byte records followed by \<open>r < 20\<close> more bytes, with \<open>n \<le> 256\<close>. If \<open>1 \<le> r \<le> 19\<close>
  the load fails with \<open>struct.error\<close> (the spec's TruncatedRecordError); if \<open>r = 0\<close> it
  succeeds and returns the parsed ysize and a table of \<open>n\<close> glyphs.
\<close>

theorem load_truncated_record:
  assumes "length yt = 2" and "py_int yt = Some y"
    and "length body = 20 * n + r" and "n \<le> 256" and "r < 20"
  shows "(0 < r \<longrightarrow> load_stream (magic @ yt @ data_marker @ body) = Inl StructError) \<and>
         (r = 0 \<longrightarrow> (\<exists>gs. load_stream (magic @ yt @ data_marker @ body) = Inr (y, gs) \<and>
                         length gs = n))"
proof (intro conjI impI)
  assume "0 < r"
  with assms show "load_stream (magic @ yt @ data_marker @ body) = Inl StructError"
    by (intro load_stream_partial [of yt y body n r]) simp_all
next
  assume "r = 0"
  with assms have "load_stream (magic @ yt @ data_marker @ body) = Inr (y, decoded_table body n)"
    by (intro load_stream_complete) simp_all
  then show "\<exists>gs. load_stream (magic @ yt @ data_marker @ body) = Inr (y, gs) \<and> length gs = n"
    by (simp add: length_decoded_table)
qed

text \<open>The theorem at a file with one record and 3 more bytes, and at one with two records.\<close>

theorem load_truncated_record_witness:
  "load_stream (magic @ ''20'' @ data_marker @ replicate 23 (CHR 0x07)) = Inl StructError \<and>
   (\<exists>gs. load_stream (magic @ ''20'' @ data_marker @ replicate 40 (CHR 0x07)) = Inr (20, gs) \<and>
         length gs = 2)"
  using load_truncated_record [of "''20''" 20 "replicate 23 (CHR 0x07)" 1 3]
        load_truncated_record [of "''20''" 20 "replicate 40 (CHR 0x07)" 2 0]
        py_int_20
  by simp

text \<open>
  Claim C3 as stated fails beyond 256 records: with 257 complete records and nothing after
  them the load does not succeed, and with one more byte the error is OverflowError, raised
  at the 257th record, not the \<open>struct.error\<close> of the short chunk.
\<close>

theorem load_truncated_record_counterexample:
  "load_stream (magic @ ''20'' @ data_marker @ replicate (20 * 257) (CHR 0x00)) = Inl OverflowError \<and>
   load_stream (magic @ ''20'' @ data_marker @ replicate (20 * 257 + 1) (CHR 0x00)) = Inl OverflowError"
  using load_stream_overflow [of "''20''" 20 "replicate (20 * 257) (CHR 0x00)"]
        load_stream_overflow [of "''20''" 20 "replicate (20 * 257 + 1) (CHR 0x00)"]
        py_int_20
  by simp

subsection \<open>Positional character codes\<close>

text \<open>
  Claim C4, as amended. After a header that \<open>load\<close> accepts, \<open>n \<le> 256\<close> complete 20-byte
  records decode to a table of \<open>n\<close> glyphs in read order: the glyph at position \<open>i\<close> is built
  from the \<open>i\<close>-th record and its character is the single byte of value \<open>i\<close>. The list of
  characters is \<open>0, 1, ..., n - 1\<close> whatever the bytes of the records are.
\<close>

theorem load_index_assignment:
  assumes "length yt = 2" and "py_int yt = Some y"
    and "length body = 20 * n" and "n \<le> 256"
  shows "\<exists>gs. load_stream (magic @ yt @ data_marker @ body) = Inr (y, gs) \<and>
              length gs = n \<and>
              map character gs = map (\<lambda>i. [char_of i]) [0..<n] \<and>
              (\<forall>i<n. gs ! i = glyph_of i (record_at body i) \<and>
                     map of_char (character (gs ! i)) = [i])"
proof -
  have "load_stream (magic @ yt @ data_marker @ body) = Inr (y, decoded_table body n)"
    using assms by (intro load_stream_complete) simp_all
  moreover have "map character (decoded_table body n) = map (\<lambda>i. [char_of i]) [0..<n]"
    by (simp add: decoded_table_def glyph_of_def)
  moreover have "\<forall>i<n. decoded_table body n ! i = glyph_of i (record_at body i) \<and>
                     map of_char (character (decoded_table body n ! i)) = [i]"
    using \<open>n \<le> 256\<close> by (auto simp: nth_decoded_table glyph_of_def)
  ultimately show ?thesis
    using length_decoded_table [of body n] by blast
qed

text \<open>Claim C4 as stated fails at 300 complete records: no table is returned.\<close>

theorem load_index_assignment_counterexample:
  "load_stream (magic @ ''16'' @ data_marker @ replicate (20 * 300) (CHR 0xFF)) = Inl OverflowError"
proof -
  have "py_int ''16'' = Some 16"
    by (simp add: py_int_def is_space_def is_digit_def digit_val_def)
  then show ?thesis
    using load_stream_overflow [of "''16''" 16 "replicate (20 * 300) (CHR 0xFF)"] by simp
qed

text \<open>The theorem at a file of three records.\<close>

theorem load_index_assignment_witness:
  "\<exists>gs. load_stream (magic @ ''20'' @ data_marker @ replicate 60 (CHR 0x41)) = Inr (20, gs) \<and>
        length gs = 3 \<and>
        map character gs = [[CHR 0x00], [CHR 0x01], [CHR 0x02]]"
proof -
  have "[0..<3] = [0, Suc 0, 2]" by (simp add: upt_rec)
  then show ?thesis
    using load_index_assignment [of "''20''" 20 "replicate 60 (CHR 0x41)" 3] py_int_20
    by (auto simp: char_of_eq_iff)
qed

subsection \<open>At most 256 glyphs\<close>

text \<open>
  Claim C9. After a header that \<open>load\<close> accepts, more than 256 complete 20-byte records make
  the load fail with OverflowError: the index 256 of the 257th record does not fit the one
  byte of \<open>to_bytes(1, "little")\<close>. And whenever the load returns, the table has at most 256
  glyphs.
\<close>

theorem load_at_most_256_glyphs:
  "(length yt = 2 \<longrightarrow> py_int yt = Some y \<longrightarrow> length body = 20 * n \<longrightarrow> 256 < n \<longrightarrow>
      load_stream (magic @ yt @ data_marker @ body) = Inl OverflowError) \<and>
   (load_stream s = Inr (y', gs) \<longrightarrow> length gs \<le> 256)"
proof (intro conjI impI)
  assume "length yt = 2" "py_int yt = Some y" "length body = 20 * n" "256 < n"
  then show "load_stream (magic @ yt @ data_marker @ body) = Inl OverflowError"
    by (intro load_stream_overflow) simp_all
next
  assume "load_stream s = Inr (y', gs)"
  then have "read_glyphs 0 \<lparr>content = s, pos = 23\<rparr> [] = Inr gs"
    by (simp add: load_stream_InrD)
  then show "length gs \<le> 256"
    by (rule read_glyphs_length) simp_all
qed

lemma load_stream_empty_20: "load_stream (magic @ ''20'' @ data_marker) = Inr (20, [])"
  using load_stream_complete [of "''20''" 20 "[]" 0] py_int_20
  by (simp add: decoded_table_def)

text \<open>The theorem at a file of 257 records, and at the file with a header only.\<close>

theorem load_at_most_256_glyphs_witness:
  "load_stream (magic @ ''20'' @ data_marker @ replicate 5140 (CHR 0x2A)) = Inl OverflowError \<and>
   load_stream (magic @ ''20'' @ data_marker) = Inr (20, []) \<and> length ([] :: Glyph list) \<le> 256"
  using load_at_most_256_glyphs [of "''20''" 20 "replicate 5140 (CHR 0x2A)" 257
          "magic @ ''20'' @ data_marker" 20 "[]"]
        py_int_20 load_stream_empty_20
  by simp


subsection \<open>Strict header literals\<close>

lemma list_update_neq: "k < length xs \<Longrightarrow> b \<noteq> xs ! k \<Longrightarrow> xs[k := b] \<noteq> xs"
  by (metis nth_list_update_eq)

text \<open>
  Claim C2, as amended. Take a stream that \<open>load\<close> accepts and change one byte inside the
  14-byte magic literal (offsets 0 to 13) or inside the 7-byte \<open>DATA\<close> literal (offsets 16
  to 22). The load fails with the error of \<open>_check_header\<close>, which carries the offset at
  which the literal starts (0 or 16, the value of \<open>tell\<close> before the read), the expected
  literal, and the bytes read: the literal with the changed byte at its place.
\<close>

theorem load_header_mutation:
  assumes ok: "load_stream s = Inr (y, gs)"
    and k: "k < 14 \<or> (16 \<le> k \<and> k < 23)"
    and b: "b \<noteq> s ! k"
  shows "load_stream (s[k := b]) =
           (if k < 14 then Inl (PILFontParsingError 0 magic (magic[k := b]))
            else Inl (PILFontParsingError 16 data_marker (data_marker[k - 16 := b])))"
proof -
  have m: "length magic = 14" and d: "length data_marker = 7"
    by (simp_all add: magic_def data_marker_def)
  from load_stream_InrD [OF ok] have
    1: "take 14 s = magic" and 2: "py_int (take 2 (drop 14 s)) = Some y" and
    3: "23 \<le> length s" and 4: "take 7 (drop 16 s) = data_marker"
    by simp_all
  show ?thesis
  proof (cases "k < 14")
    case True
    have t: "take 14 (s[k := b]) = magic[k := b]"
      using 1 by (simp add: take_update_swap)
    have "magic ! k = take 14 s ! k" using 1 by simp
    then have "magic ! k = s ! k" using True by simp
    then have "magic[k := b] \<noteq> magic"
      using True b m by (intro list_update_neq) simp_all
    then show ?thesis using True t by (simp add: load_stream_unfold)
  next
    case False
    with k have k16: "16 \<le> k" "k < 23" by simp_all
    have t1: "take 14 (s[k := b]) = magic"
      using 1 k16 by simp
    have t2: "take 2 (drop 14 (s[k := b])) = take 2 (drop 14 s)"
      using k16 by (simp add: drop_update_swap)
    have t3: "take 7 (drop 16 (s[k := b])) = data_marker[k - 16 := b]"
      using 4 k16 by (simp add: drop_update_swap take_update_swap)
    have "data_marker ! (k - 16) = s ! k"
    proof -
      have "data_marker ! (k - 16) = take 7 (drop 16 s) ! (k - 16)" using 4 by simp
      also have "\<dots> = drop 16 s ! (k - 16)" using k16 by simp
      also have "\<dots> = s ! (16 + (k - 16))" using 3 by simp
      finally show ?thesis using k16 by simp
    qed
    then have "data_marker[k - 16 := b] \<noteq> data_marker"
      using k16 b d by (intro list_update_neq) simp_all
    moreover have "min (length s - 14) 2 = 2" using 3 by simp
    ultimately show ?thesis
      using False t1 t2 t3 2 by (simp add: load_stream_unfold)
  qed
qed


text \<open>The theorem at the header-only file for ysize 20, changed at offset 3 and at offset 17.\<close>

theorem load_header_mutation_witness:
  "load_stream ((magic @ ''20'' @ data_marker)[3 := CHR ''X'']) =
     Inl (PILFontParsingError 0 magic (magic[3 := CHR ''X''])) \<and>
   load_stream ((magic @ ''20'' @ data_marker)[17 := CHR ''X'']) =
     Inl (PILFontParsingError 16 data_marker (data_marker[1 := CHR ''X'']))"
proof -
  have a: "CHR ''X'' \<noteq> (magic @ ''20'' @ data_marker) ! 3"
    and b: "CHR ''X'' \<noteq> (magic @ ''20'' @ data_marker) ! 17"
    by (simp_all add: magic_def data_marker_def)
  show ?thesis
    using load_header_mutation [OF load_stream_empty_20 _ a]
          load_header_mutation [OF load_stream_empty_20 _ b]
    by simp
qed

text \<open>
  Claim C2 as stated fails: with the byte at offset 3 changed the error reports offset 0,
  and with the byte at offset 19 changed it reports offset 16, not the offset of the
  changed byte.
\<close>

theorem load_header_mutation_counterexample:
  "load_stream (''PILfont\<newline>;;;;;;20;\<newline>DATA\<newline>'') = Inr (20, []) \<and>
   load_stream (''PILXont\<newline>;;;;;;20;\<newline>DATA\<newline>'') =
     Inl (PILFontParsingError 0 ''PILfont\<newline>;;;;;;'' ''PILXont\<newline>;;;;;;'') \<and>
   load_stream (''PILfont\<newline>;;;;;;20;\<newline>DXTA\<newline>'') =
     Inl (PILFontParsingError 16 '';\<newline>DATA\<newline>'' '';\<newline>DXTA\<newline>'')"
proof -
  have 1: "load_stream (''PILfont\<newline>;;;;;;20;\<newline>DATA\<newline>'') = Inr (20, [])"
    using load_stream_empty_20 by (simp add: magic_def data_marker_def)
  have 2: "load_stream (''PILXont\<newline>;;;;;;20;\<newline>DATA\<newline>'') =
     Inl (PILFontParsingError 0 ''PILfont\<newline>;;;;;;'' ''PILXont\<newline>;;;;;;'')"
    by (simp add: load_stream_unfold magic_def)
  have 3: "load_stream (''PILfont\<newline>;;;;;;20;\<newline>DXTA\<newline>'') =
     Inl (PILFontParsingError 16 '';\<newline>DATA\<newline>'' '';\<newline>DXTA\<newline>'')"
    using py_int_20 by (simp add: load_stream_unfold magic_def data_marker_def)
  from 1 2 3 show ?thesis by blast
qed

subsection \<open>Indexing a font\<close>

text \<open>
  Claim C7, as amended. For a font with \<open>N\<close> glyphs, \<open>font[index]\<close> is the glyph at
  \<open>index\<close> when \<open>0 \<le> index < N\<close>, the glyph at \<open>index + N\<close> when \<open>-N \<le> index < 0\<close>
  (Python counts a negative index from the end), and IndexError otherwise.
\<close>

theorem getitem_index:
  "getitem font index =
     (if 0 \<le> index \<and> index < int (length (glyphs font))
        then Inr (glyphs font ! nat index)
      else if - int (length (glyphs font)) \<le> index \<and> index < 0
        then Inr (glyphs font ! nat (index + int (length (glyphs font))))
      else Inl IndexError)"
  by (simp add: getitem_def list_getitem_def Let_def)





text \<open>The theorem at a font of two glyphs, at the indices 1, -2, 2 and -3.\<close>

theorem getitem_index_witness:
  "getitem \<lparr>atlas = (), ysize = 20, glyphs = [glyph_A, glyph_B]\<rparr> 1 = Inr glyph_B \<and>
   getitem \<lparr>atlas = (), ysize = 20, glyphs = [glyph_A, glyph_B]\<rparr> (- 2) = Inr glyph_A \<and>
   getitem \<lparr>atlas = (), ysize = 20, glyphs = [glyph_A, glyph_B]\<rparr> 2 = Inl IndexError \<and>
   getitem \<lparr>atlas = (), ysize = 20, glyphs = [glyph_A, glyph_B]\<rparr> (- 3) = Inl IndexError"
  using getitem_index [of "\<lparr>atlas = (), ysize = 20, glyphs = [glyph_A, glyph_B]\<rparr>" 1]
        getitem_index [of "\<lparr>atlas = (), ysize = 20, glyphs = [glyph_A, glyph_B]\<rparr>" "- 2"]
        getitem_index [of "\<lparr>atlas = (), ysize = 20, glyphs = [glyph_A, glyph_B]\<rparr>" 2]
        getitem_index [of "\<lparr>atlas = (), ysize = 20, glyphs = [glyph_A, glyph_B]\<rparr>" "- 3"]
  by simp

text \<open>
  Claim C7 as stated fails at index -1, which is outside \<open>[0, N)\<close>: the last glyph comes
  back, not an error.
\<close>

theorem getitem_index_counterexample:
  "getitem \<lparr>atlas = (), ysize = 20, glyphs = [glyph_A, glyph_B]\<rparr> (- 1) = Inr glyph_B"
  by (simp add: getitem_def list_getitem_def)

subsection \<open>The atlas is saved first\<close>




text \<open>Without an image path (or after a successful image save) the metrics file is written.\<close>

lemma save_without_image:
  "save image_save font metrics_path None files =
     (fst (save_stream (ysize font) (glyphs font)),
      files(metrics_path \<mapsto> snd (save_stream (ysize font) (glyphs font))))"
  by (simp add: save_def split: prod.split)

subsection \<open>The example scenario\<close>

text \<open>
  Claim C6. Saving ysize 20 and the two glyphs of the example writes the magic literal,
  the text \<open>20\<close>, the \<open>DATA\<close> literal and 40 bytes of big-endian 16-bit integers; loading
  these bytes gives back ysize 20 and the two glyphs.
\<close>

theorem example_scenario:
  "save_stream 20 [glyph_A, glyph_B] =
     (None, ''PILfont\<newline>;;;;;;'' @ ''20'' @ '';\<newline>DATA\<newline>'' @
        [CHR 0x00, CHR 0x06, CHR 0x00, CHR 0x00, CHR 0x00, CHR 0x00, CHR 0xFF, CHR 0xF0,
         CHR 0x00, CHR 0x06, CHR 0x00, CHR 0x00, CHR 0x00, CHR 0x00, CHR 0x00, CHR 0x00,
         CHR 0x00, CHR 0x06, CHR 0x00, CHR 0x10,
         CHR 0x00, CHR 0x06, CHR 0x00, CHR 0x00, CHR 0x00, CHR 0x00, CHR 0xFF, CHR 0xF0,
         CHR 0x00, CHR 0x06, CHR 0x00, CHR 0x00, CHR 0x00, CHR 0x06, CHR 0x00, CHR 0x00,
         CHR 0x00, CHR 0x0C, CHR 0x00, CHR 0x10]) \<and>
   load_stream (''PILfont\<newline>;;;;;;'' @ ''20'' @ '';\<newline>DATA\<newline>'' @
        [CHR 0x00, CHR 0x06, CHR 0x00, CHR 0x00, CHR 0x00, CHR 0x00, CHR 0xFF, CHR 0xF0,
         CHR 0x00, CHR 0x06, CHR 0x00, CHR 0x00, CHR 0x00, CHR 0x00, CHR 0x00, CHR 0x00,
         CHR 0x00, CHR 0x06, CHR 0x00, CHR 0x10,
         CHR 0x00, CHR 0x06, CHR 0x00, CHR 0x00, CHR 0x00, CHR 0x00, CHR 0xFF, CHR 0xF0,
         CHR 0x00, CHR 0x06, CHR 0x00, CHR 0x00, CHR 0x00, CHR 0x06, CHR 0x00, CHR 0x00,
         CHR 0x00, CHR 0x0C, CHR 0x00, CHR 0x10]) = Inr (20, [glyph_A, glyph_B])"
  by code_simp

subsection \<open>A ysize of one digit\<close>

text \<open>
  Claim C8, at the input where the code departs from it. The text \<open>5\<close> is a decimal integer,
  and \<open>save\<close> writes it as it is for ysize 5; \<open>load\<close> reads two bytes, \<open>5;\<close>, and \<open>int\<close>
  raises ValueError on them, although the header is the magic literal, a parseable ysize
  and the \<open>DATA\<close> literal, followed by no record.
\<close>

theorem load_one_digit_ysize:
  "py_int ''5'' = Some 5 \<and>
   save_stream 5 [] = (None, magic @ ''5'' @ data_marker) \<and>
   load_stream (magic @ ''5'' @ data_marker) = Inl ValueError"
  by code_simp

text \<open>
  With two bytes of ysize text that \<open>int\<close> parses, the header alone loads to the empty
  table; with three digits the second check of the header fails at offset 16.
\<close>

lemma load_header_only:
  "length yt = 2 \<Longrightarrow> py_int yt = Some y \<Longrightarrow> load_stream (magic @ yt @ data_marker) = Inr (y, [])"
  using load_stream_complete [of yt y "[]" 0] by (simp add: decoded_table_def)

lemma load_three_digit_ysize:
  "load_stream (magic @ ''100'' @ data_marker) =
     Inl (PILFontParsingError 16 data_marker ''0;\<newline>DATA'')"
  by code_simp

text \<open>
  The same limit holds for \<open>load\<close> on a file system, whatever the image backend is; and
  when the metrics file does not parse, the error of the parse is the one raised, the
  copy of the image never being reached.
\<close>

lemma load_parse_error:
  assumes "image_open image_path files = Inr h" and "files metrics_path = Some bytes"
    and "load_stream bytes = Inl e"
  shows "load image_open image_copy metrics_path image_path files = Inl e"
  using assms by (simp add: load_def)

lemma load_at_most_256:
  assumes "load image_open image_copy metrics_path image_path files = Inr font"
  shows "length (glyphs font) \<le> 256"
proof -
  from assms obtain bytes y gs where "load_stream bytes = Inr (y, gs)" and "glyphs font = gs"
    by (auto simp: load_def split: sum.splits option.splits)
  then have "read_glyphs 0 \<lparr>content = bytes, pos = 23\<rparr> [] = Inr (glyphs font)"
    by (simp add: load_stream_InrD)
  then show ?thesis by (rule read_glyphs_length) simp_all
qed

subsection \<open>The 20-byte record\<close>

lemma be16_value:
  "256 * of_char (char_of (v div 256) :: char) + of_char (char_of v :: char) = (v :: int) mod 65536"
proof -
  have "v mod (256 * 256) = 256 * (v div 256 mod 256) + v mod 256"
    by (rule zmod_zmult2_eq) simp
  then show ?thesis by simp
qed

lemma unpack_pack_h:
  assumes "in_int16 v"
  shows "unpack_h (char_of (v div 256)) (char_of v) = v"
proof -
  have u: "256 * of_char (char_of (v div 256) :: char) + of_char (char_of v :: char) = v mod 65536"
    by (rule be16_value)
  show ?thesis
  proof (cases "0 \<le> v")
    case True
    with assms have "v mod 65536 = v" by (simp add: in_int16_def)
    with True assms show ?thesis
      unfolding unpack_h_def Let_def u by (simp add: in_int16_def)
  next
    case False
    with assms have "(v + 65536) mod 65536 = v + 65536"
      by (intro mod_pos_pos_trivial) (simp_all add: in_int16_def)
    then have "v mod 65536 = v + 65536" by simp
    with False assms show ?thesis
      unfolding unpack_h_def Let_def u by (simp add: in_int16_def)
  qed
qed

lemma unpack_h_range: "in_int16 (unpack_h hi lo)"
proof -
  have "(of_char hi :: int) < 256" "(0::int) \<le> of_char hi" "(of_char lo :: int) < 256" "(0::int) \<le> of_char lo"
    by (metis of_char_mod_256 pos_mod_bound zero_less_numeral, metis of_char_mod_256 pos_mod_sign zero_less_numeral,
        metis of_char_mod_256 pos_mod_bound zero_less_numeral, metis of_char_mod_256 pos_mod_sign zero_less_numeral)
  then show ?thesis
    by (simp add: unpack_h_def Let_def in_int16_def)
qed

lemma unpack_h_mod: "unpack_h hi lo mod 65536 = 256 * of_char hi + of_char lo"
proof -
  have b: "(of_char hi :: int) < 256" "(0::int) \<le> of_char hi" "(of_char lo :: int) < 256" "(0::int) \<le> of_char lo"
    by (metis of_char_mod_256 pos_mod_bound zero_less_numeral, metis of_char_mod_256 pos_mod_sign zero_less_numeral,
        metis of_char_mod_256 pos_mod_bound zero_less_numeral, metis of_char_mod_256 pos_mod_sign zero_less_numeral)
  define u :: int where "u = 256 * of_char hi + of_char lo"
  have r: "0 \<le> u" "u < 65536" using b by (simp_all add: u_def)
  have "(if 32768 \<le> u then u - 65536 else u) mod 65536 = u"
    using r by (simp add: mod_pos_pos_trivial)
  then show ?thesis by (simp add: unpack_h_def Let_def u_def)
qed


lemma glyph_iter_eq:
  "delta g = (dx, dy) \<Longrightarrow> dst_bbox g = (dx0, dy0, dx1, dy1) \<Longrightarrow>
   src_bbox g = (sx0, sy0, sx1, sy1) \<Longrightarrow>
   glyph_iter g = [dx, dy, dx0, dy0, dx1, dy1, sx0, sy0, sx1, sy1]"
  by (simp add: glyph_iter_def)

lemma length_glyph_iter: "length (glyph_iter g) = 10"
  by (simp add: glyph_iter_def split: prod.split)

lemma length_encoded: "length (encoded g) = 20"
  by (simp add: encoded_def glyph_iter_def pack_h_def split: prod.split)

lemma pack_10h_glyph: "glyph_in_range g \<Longrightarrow> pack_10h (glyph_iter g) = Inr (encoded g)"
  by (simp add: pack_10h_def length_glyph_iter glyph_in_range_def encoded_def)

lemma pack_10h_out_of_range: "\<not> glyph_in_range g \<Longrightarrow> pack_10h (glyph_iter g) = Inl StructError"
  by (simp add: pack_10h_def length_glyph_iter glyph_in_range_def)

lemma glyph_of_encoded:
  assumes "glyph_in_range g"
  shows "glyph_of i (encoded g) = g\<lparr>character := [char_of i]\<rparr>"
proof -
  obtain dx dy where d: "delta g = (dx, dy)" by (cases "delta g")
  obtain dx0 dy0 dx1 dy1 where t: "dst_bbox g = (dx0, dy0, dx1, dy1)"
    by (cases "dst_bbox g") auto
  obtain sx0 sy0 sx1 sy1 where s: "src_bbox g = (sx0, sy0, sx1, sy1)"
    by (cases "src_bbox g") auto
  have it: "glyph_iter g = [dx, dy, dx0, dy0, dx1, dy1, sx0, sy0, sx1, sy1]"
    using d t s by (rule glyph_iter_eq)
  from assms have r: "in_int16 dx" "in_int16 dy" "in_int16 dx0" "in_int16 dy0" "in_int16 dx1"
    "in_int16 dy1" "in_int16 sx0" "in_int16 sy0" "in_int16 sx1" "in_int16 sy1"
    by (simp_all add: glyph_in_range_def it)
  have "glyph_of i (encoded g) =
        \<lparr>character = [char_of i], delta = (dx, dy), src_bbox = (sx0, sy0, sx1, sy1),
         dst_bbox = (dx0, dy0, dx1, dy1)\<rparr>"
    by (simp add: glyph_of_def encoded_def it pack_h_def unpack_pack_h r)
  also have "\<dots> = g\<lparr>character := [char_of i]\<rparr>"
    using d t s by (cases g) simp
  finally show ?thesis .
qed

lemma write_glyphs_ok:
  "\<forall>g\<in>set gs. glyph_in_range g \<Longrightarrow>
   write_glyphs gs out = (None, out @ concat (map encoded gs))"
  by (induction gs arbitrary: out) (simp_all add: pack_10h_glyph)

lemma record_at_concat:
  "\<forall>x\<in>set xs. length x = 20 \<Longrightarrow> k < length xs \<Longrightarrow> record_at (concat xs) k = xs ! k"
proof (induction xs arbitrary: k)
  case Nil
  then show ?case by simp
next
  case (Cons x xs)
  show ?case
  proof (cases k)
    case 0
    with Cons.prems show ?thesis by (simp add: record_at_def)
  next
    case (Suc j)
    with Cons.prems have "record_at (concat xs) j = xs ! j"
      by (intro Cons.IH) simp_all
    with Cons.prems Suc show ?thesis by (simp add: record_at_def)
  qed
qed

lemma length_concat_encoded: "length (concat (map encoded gs)) = 20 * length gs"
  by (induction gs) (simp_all add: length_encoded)

lemma decoded_table_encoded:
  assumes "\<forall>g\<in>set gs. glyph_in_range g"
  shows "decoded_table (concat (map encoded gs)) (length gs) =
         map (\<lambda>k. (gs ! k)\<lparr>character := [char_of k]\<rparr>) [0..<length gs]"
proof -
  have "record_at (concat (map encoded gs)) k = encoded (gs ! k)" if "k < length gs" for k
    using record_at_concat [of "map encoded gs" k] that by (simp add: length_encoded)
  then show ?thesis
    using assms by (simp add: decoded_table_def glyph_of_encoded)
qed


subsection \<open>Decimal text of ysize\<close>

lemma char_eq_code: "c = d \<longleftrightarrow> (of_char c :: nat) = of_char d"
  by simp

lemma digit_char_code: "d < 10 \<Longrightarrow> (of_char (char_of (48 + d :: nat)) :: nat) = 48 + d"
  by simp

lemma digit_char_props:
  assumes "d < 10"
  shows "is_digit (char_of (48 + d))" and "digit_val (char_of (48 + d)) = d"
    and "\<not> is_space (char_of (48 + d))"
    and "char_of (48 + d) \<noteq> CHR ''+''" and "char_of (48 + d) \<noteq> CHR ''-''"
    and "char_of (48 + d) \<noteq> CHR ''_''"
  using assms
  by (simp_all add: is_digit_def digit_val_def is_space_def char_eq_code [of "char_of (48 + d)"])

lemma py_int_two_digits:
  assumes "a < 10" and "b < 10"
  shows "py_int [char_of (48 + a), char_of (48 + b)] = Some (int (10 * a + b))"
  using digit_char_props [OF assms(1)] digit_char_props [OF assms(2)]
  by (simp add: py_int_def)

lemma py_str_two_digits:
  assumes "10 \<le> y" and "y \<le> 99"
  shows "py_str y = [char_of (48 + nat y div 10), char_of (48 + nat y mod 10)]"
proof -
  have 1: "\<not> nat y < 10" using assms by simp
  have 2: "nat y div 10 < 10" using assms by simp
  have "digits_of (nat y) = digits_of (nat y div 10) @ [char_of (48 + nat y mod 10)]"
    using 1 by (subst digits_of.simps) simp
  also have "digits_of (nat y div 10) = [char_of (48 + nat y div 10)]"
    using 2 by (subst digits_of.simps) simp
  finally show ?thesis using assms by (simp add: py_str_def)
qed

lemma py_int_py_str:
  assumes "10 \<le> y" and "y \<le> 99"
  shows "length (py_str y) = 2" and "py_int (py_str y) = Some y"
proof -
  show "length (py_str y) = 2" by (simp add: py_str_two_digits [OF assms])
  have "py_int (py_str y) = Some (int (10 * (nat y div 10) + nat y mod 10))"
    unfolding py_str_two_digits [OF assms]
    using assms by (intro py_int_two_digits) simp_all
  then show "py_int (py_str y) = Some y" using assms by simp
qed

lemma save_stream_ok:
  "\<forall>g\<in>set gs. glyph_in_range g \<Longrightarrow>
   save_stream y gs = (None, magic @ py_str y @ data_marker @ concat (map encoded gs))"
  by (simp add: save_stream_def write_glyphs_ok)

subsection \<open>Round trip\<close>

text \<open>
  Claim C1, as amended. For a ysize of two decimal digits (\<open>10 \<le> ysize \<le> 99\<close>) and a
  table of at most 256 glyphs whose values fit 16 bits, \<open>save\<close> succeeds, and \<open>load\<close>
  of the bytes written returns the same ysize and a table in which glyph \<open>k\<close> has the
  \<open>delta\<close>, \<open>dst_bbox\<close> and \<open>src_bbox\<close> of the original glyph \<open>k\<close> and the character byte
  \<open>k\<close>; when the original characters are these positional bytes, the table is the
  original one.
\<close>

theorem save_load_roundtrip:
  assumes "10 \<le> y" and "y \<le> 99" and "length gs \<le> 256"
    and "\<forall>g\<in>set gs. glyph_in_range g"
  shows "fst (save_stream y gs) = None \<and>
         load_stream (snd (save_stream y gs)) =
           Inr (y, map (\<lambda>k. (gs ! k)\<lparr>character := [char_of k]\<rparr>) [0..<length gs]) \<and>
         ((\<forall>k<length gs. character (gs ! k) = [char_of k]) \<longrightarrow>
            load_stream (snd (save_stream y gs)) = Inr (y, gs))"
proof -
  let ?body = "concat (map encoded gs)"
  have sv: "save_stream y gs = (None, magic @ py_str y @ data_marker @ ?body)"
    using assms(4) by (rule save_stream_ok)
  have "load_stream (magic @ py_str y @ data_marker @ ?body) =
        Inr (y, decoded_table ?body (length gs))"
    using py_int_py_str [OF assms(1,2)] assms(3)
    by (intro load_stream_complete) (simp_all add: length_concat_encoded)
  then have ld: "load_stream (snd (save_stream y gs)) =
           Inr (y, map (\<lambda>k. (gs ! k)\<lparr>character := [char_of k]\<rparr>) [0..<length gs])"
    by (simp add: sv decoded_table_encoded [OF assms(4)])
  have "map (\<lambda>k. (gs ! k)\<lparr>character := [char_of k]\<rparr>) [0..<length gs] = gs"
    if "\<forall>k<length gs. character (gs ! k) = [char_of k]"
  proof (rule nth_equalityI)
    show "length (map (\<lambda>k. (gs ! k)\<lparr>character := [char_of k]\<rparr>) [0..<length gs]) = length gs"
      by simp
  next
    fix i assume "i < length (map (\<lambda>k. (gs ! k)\<lparr>character := [char_of k]\<rparr>) [0..<length gs])"
    then have i: "i < length gs" by simp
    with that have "character (gs ! i) = [char_of i]" by blast
    then have "(gs ! i)\<lparr>character := [char_of i]\<rparr> = gs ! i"
      by (cases "gs ! i") simp
    with i show "map (\<lambda>k. (gs ! k)\<lparr>character := [char_of k]\<rparr>) [0..<length gs] ! i = gs ! i"
      by simp
  qed
  with ld sv show ?thesis by simp
qed




lemma glyph_A_in_range: "glyph_in_range glyph_A"
  by (simp add: glyph_in_range_def glyph_iter_def glyph_A_def in_int16_def)

lemma glyph_B_in_range: "glyph_in_range glyph_B"
  by (simp add: glyph_in_range_def glyph_iter_def glyph_B_def in_int16_def)

text \<open>The theorem at ysize 20 and the two glyphs of the example.\<close>

theorem save_load_roundtrip_witness:
  "fst (save_stream 20 [glyph_A, glyph_B]) = None \<and>
   load_stream (snd (save_stream 20 [glyph_A, glyph_B])) = Inr (20, [glyph_A, glyph_B])"
proof -
  let ?gs = "[glyph_A, glyph_B]"
  have z: "char_of (0 :: nat) = CHR 0x00" "char_of (Suc 0) = CHR 0x01"
    by (simp_all add: char_of_eq_iff)
  have c: "\<forall>k<length ?gs. character (?gs ! k) = [char_of k]"
    by (simp add: less_Suc_eq glyph_A_def glyph_B_def z)
  have h: "\<forall>g\<in>set ?gs. glyph_in_range g"
    by (simp add: glyph_A_in_range glyph_B_in_range)
  have l: "length ?gs \<le> 256" by simp
  have "fst (save_stream 20 ?gs) = None \<and>
        load_stream (snd (save_stream 20 ?gs)) =
          Inr (20, map (\<lambda>k. (?gs ! k)\<lparr>character := [char_of k]\<rparr>) [0..<length ?gs]) \<and>
        ((\<forall>k<length ?gs. character (?gs ! k) = [char_of k]) \<longrightarrow>
           load_stream (snd (save_stream 20 ?gs)) = Inr (20, ?gs))"
    by (rule save_load_roundtrip [OF _ _ l h]) simp_all
  with c show ?thesis by blast
qed

text \<open>
  Claim C1 as stated fails for ysize 5, where the load raises ValueError, and for a
  table of 257 glyphs, where it raises OverflowError.
\<close>

theorem save_load_roundtrip_counterexample:
  "load_stream (snd (save_stream 5 [])) = Inl ValueError \<and>
   load_stream (snd (save_stream 20 (replicate 257 glyph_A))) = Inl OverflowError"
proof -
  have 1: "load_stream (snd (save_stream 5 [])) = Inl ValueError"
    by code_simp
  have sv: "save_stream 20 (replicate 257 glyph_A) =
        (None, magic @ py_str 20 @ data_marker @ concat (map encoded (replicate 257 glyph_A)))"
    by (intro save_stream_ok) (simp add: glyph_A_in_range)
  have "length (concat (map encoded (replicate 257 glyph_A))) = 20 * 257"
    by (simp only: length_concat_encoded length_replicate)
  then have len: "5140 \<le> length (concat (map encoded (replicate 257 glyph_A)))"
    by (simp only:)
  have "load_stream (magic @ py_str 20 @ data_marker @
                    concat (map encoded (replicate 257 glyph_A))) = Inl OverflowError"
    by (rule load_stream_overflow [OF py_int_py_str(1) py_int_py_str(2) len]) simp_all
  then have 2: "load_stream (snd (save_stream 20 (replicate 257 glyph_A))) = Inl OverflowError"
    by (simp only: sv snd_conv)
  from 1 2 show ?thesis by blast
qed

subsection \<open>Layout of a record\<close>

text \<open>
  Claim C5. For a glyph whose ten values fit 16 bits, the packed record is the 20 bytes
  of \<open>dx, dy, dx0, dy0, dx1, dy1, sx0, sy0, sx1, sy1\<close> in this order (advance, destination
  box, source box), two bytes each. The two bytes of a value \<open>v\<close> are its big-endian two's
  complement: high byte first, together worth \<open>v mod 65536\<close>, and unpacking them gives \<open>v\<close>
  back. Decoding a 20-byte record reads the ten values at the same places: bytes 0-3 are
  \<open>delta\<close>, bytes 4-11 \<open>dst_bbox\<close>, bytes 12-19 \<open>src_bbox\<close>, each a signed 16-bit value.
\<close>

theorem record_layout:
  "(delta g = (dx, dy) \<and> dst_bbox g = (dx0, dy0, dx1, dy1) \<and> src_bbox g = (sx0, sy0, sx1, sy1) \<and>
    list_all in_int16 [dx, dy, dx0, dy0, dx1, dy1, sx0, sy0, sx1, sy1] \<longrightarrow>
      pack_10h (glyph_iter g) =
        Inr (pack_h dx @ pack_h dy @ pack_h dx0 @ pack_h dy0 @ pack_h dx1 @ pack_h dy1 @
             pack_h sx0 @ pack_h sy0 @ pack_h sx1 @ pack_h sy1) \<and>
      length (pack_h dx @ pack_h dy @ pack_h dx0 @ pack_h dy0 @ pack_h dx1 @ pack_h dy1 @
              pack_h sx0 @ pack_h sy0 @ pack_h sx1 @ pack_h sy1) = 20) \<and>
   (in_int16 v \<longrightarrow>
      length (pack_h v) = 2 \<and>
      256 * of_char (pack_h v ! 0) + of_char (pack_h v ! 1) = v mod 65536 \<and>
      unpack_h (pack_h v ! 0) (pack_h v ! 1) = v) \<and>
   (length raw = 20 \<and> i < 256 \<longrightarrow>
      make_glyph i raw =
        Inr \<lparr>character = [char_of i],
             delta = (unpack_h (raw ! 0) (raw ! 1), unpack_h (raw ! 2) (raw ! 3)),
             src_bbox = (unpack_h (raw ! 12) (raw ! 13), unpack_h (raw ! 14) (raw ! 15),
                         unpack_h (raw ! 16) (raw ! 17), unpack_h (raw ! 18) (raw ! 19)),
             dst_bbox = (unpack_h (raw ! 4) (raw ! 5), unpack_h (raw ! 6) (raw ! 7),
                         unpack_h (raw ! 8) (raw ! 9), unpack_h (raw ! 10) (raw ! 11))\<rparr>) \<and>
   in_int16 (unpack_h hi lo) \<and>
   unpack_h hi lo mod 65536 = 256 * of_char hi + of_char lo"
proof (intro conjI impI)
  assume a: "delta g = (dx, dy) \<and> dst_bbox g = (dx0, dy0, dx1, dy1) \<and>
    src_bbox g = (sx0, sy0, sx1, sy1) \<and>
    list_all in_int16 [dx, dy, dx0, dy0, dx1, dy1, sx0, sy0, sx1, sy1]"
  then have it: "glyph_iter g = [dx, dy, dx0, dy0, dx1, dy1, sx0, sy0, sx1, sy1]"
    by (simp add: glyph_iter_eq)
  with a show "pack_10h (glyph_iter g) =
        Inr (pack_h dx @ pack_h dy @ pack_h dx0 @ pack_h dy0 @ pack_h dx1 @ pack_h dy1 @
             pack_h sx0 @ pack_h sy0 @ pack_h sx1 @ pack_h sy1)"
    by (simp add: pack_10h_def)
  show "length (pack_h dx @ pack_h dy @ pack_h dx0 @ pack_h dy0 @ pack_h dx1 @ pack_h dy1 @
              pack_h sx0 @ pack_h sy0 @ pack_h sx1 @ pack_h sy1) = 20"
    by (simp add: pack_h_def)
next
  show "length (pack_h v) = 2" by (simp add: pack_h_def)
  show "256 * of_char (pack_h v ! 0) + of_char (pack_h v ! 1) = v mod 65536"
    using be16_value [of v] by (simp add: pack_h_def)
  assume "in_int16 v"
  then show "unpack_h (pack_h v ! 0) (pack_h v ! 1) = v"
    by (simp add: pack_h_def unpack_pack_h)
next
  assume "length raw = 20 \<and> i < 256"
  then show "make_glyph i raw =
        Inr \<lparr>character = [char_of i],
             delta = (unpack_h (raw ! 0) (raw ! 1), unpack_h (raw ! 2) (raw ! 3)),
             src_bbox = (unpack_h (raw ! 12) (raw ! 13), unpack_h (raw ! 14) (raw ! 15),
                         unpack_h (raw ! 16) (raw ! 17), unpack_h (raw ! 18) (raw ! 19)),
             dst_bbox = (unpack_h (raw ! 4) (raw ! 5), unpack_h (raw ! 6) (raw ! 7),
                         unpack_h (raw ! 8) (raw ! 9), unpack_h (raw ! 10) (raw ! 11))\<rparr>"
    by (simp add: make_glyph_ok glyph_of_def)
next
  show "in_int16 (unpack_h hi lo)" by (rule unpack_h_range)
  show "unpack_h hi lo mod 65536 = 256 * of_char hi + of_char lo" by (rule unpack_h_mod)
qed

text \<open>The theorem at the first glyph of the example and at the value -16.\<close>

theorem record_layout_witness:
  "pack_10h (glyph_iter glyph_A) =
     Inr [CHR 0x00, CHR 0x06, CHR 0x00, CHR 0x00, CHR 0x00, CHR 0x00, CHR 0xFF, CHR 0xF0,
          CHR 0x00, CHR 0x06, CHR 0x00, CHR 0x00, CHR 0x00, CHR 0x00, CHR 0x00, CHR 0x00,
          CHR 0x00, CHR 0x06, CHR 0x00, CHR 0x10] \<and>
   unpack_h (pack_h (- 16) ! 0) (pack_h (- 16) ! 1) = - 16 \<and>
   make_glyph 0
     [CHR 0x00, CHR 0x06, CHR 0x00, CHR 0x00, CHR 0x00, CHR 0x00, CHR 0xFF, CHR 0xF0,
      CHR 0x00, CHR 0x06, CHR 0x00, CHR 0x00, CHR 0x00, CHR 0x00, CHR 0x00, CHR 0x00,
      CHR 0x00, CHR 0x06, CHR 0x00, CHR 0x10] = Inr glyph_A"
proof -
  have p: "pack_h 6 = [CHR 0x00, CHR 0x06]" "pack_h 0 = [CHR 0x00, CHR 0x00]"
    "pack_h (- 16) = [CHR 0xFF, CHR 0xF0]" "pack_h 16 = [CHR 0x00, CHR 0x10]"
    by (simp_all add: pack_h_def char_of_eq_iff take_bit_eq_mod)
  have u: "unpack_h (CHR 0x00) (CHR 0x06) = 6" "unpack_h (CHR 0x00) (CHR 0x00) = 0"
    "unpack_h (CHR 0xFF) (CHR 0xF0) = - 16" "unpack_h (CHR 0x00) (CHR 0x10) = 16"
    by (simp_all add: unpack_h_def)
  show ?thesis
    using record_layout [of glyph_A 6 0 0 "- 16" 6 0 0 0 6 16 "- 16"
        "[CHR 0x00, CHR 0x06, CHR 0x00, CHR 0x00, CHR 0x00, CHR 0x00, CHR 0xFF, CHR 0xF0,
          CHR 0x00, CHR 0x06, CHR 0x00, CHR 0x00, CHR 0x00, CHR 0x00, CHR 0x00, CHR 0x00,
          CHR 0x00, CHR 0x06, CHR 0x00, CHR 0x10]" 0 "CHR 0xFF" "CHR 0xF0"]
    by (simp add: glyph_A_def in_int16_def p u char_of_eq_iff take_bit_eq_mod)
qed

end
